theory Spec2Isabelle
  imports Main "HOL-Library.Word"
begin

section \<open>Characters and C strings\<close>

text \<open>
  A byte of the serial stream and of every character array is a \<^typ>\<open>char\<close>.
  A character array is the list of its bytes, terminator and stale bytes included;
  the C string held in it ends in front of the first NUL byte.
\<close>

abbreviation NUL :: char where "NUL \<equiv> CHR 0x00"
abbreviation LF :: char where "LF \<equiv> CHR 0x0A"
abbreviation CR :: char where "CR \<equiv> CHR 0x0D"

definition cstr :: "string \<Rightarrow> string" where
  "cstr a = takeWhile (\<lambda>c. c \<noteq> NUL) a"

text \<open>\<^verbatim>\<open>strncpy(dst, src, n)\<close>: the first \<open>n\<close> bytes of \<open>dst\<close> are the C string
  \<open>src\<close>, cut at \<open>n\<close> bytes or filled up to \<open>n\<close> bytes with NUL.\<close>

definition strncpy :: "string \<Rightarrow> string \<Rightarrow> nat \<Rightarrow> string" where
  "strncpy dst src n = take n (src @ replicate n NUL) @ drop n dst"

section \<open>The fix record\<close>

text \<open>
  \<^verbatim>\<open>float speed\<close> is kept as the expression that computes it: the zero of
  \<^verbatim>\<open>memset\<close> and of \<^verbatim>\<open>gpsData.speed = 0.0\<close>, or
  \<^verbatim>\<open>atof(token) * 1.852\<close> for the token it was computed from. Neither
  \<^verbatim>\<open>atof\<close> nor the rounding to \<^verbatim>\<open>float\<close> is evaluated.
\<close>

datatype speed_val = Speed_zero | Knots_times_1852 string

text \<open>
  \<^verbatim>\<open>struct GpsData\<close>. The arrays \<^verbatim>\<open>date[7]\<close>, \<^verbatim>\<open>time[7]\<close>,
  \<^verbatim>\<open>lat[11]\<close> and \<^verbatim>\<open>lon[11]\<close> are lists of 7, 7, 11 and 11 bytes.
\<close>

record GpsData =
  date :: string
  time :: string
  lat :: string
  ns :: char
  lon :: string
  ew :: char
  speed :: speed_val
  mode :: char
  dataReady :: bool

text \<open>\<^verbatim>\<open>memset(&gpsData, 0, sizeof(gpsData))\<close> at the end of \<^verbatim>\<open>setup\<close>.\<close>

definition gpsData_zero :: GpsData where
  "gpsData_zero =
     \<lparr>date = replicate 7 NUL, time = replicate 7 NUL, lat = replicate 11 NUL, ns = NUL,
      lon = replicate 11 NUL, ew = NUL, speed = Speed_zero, mode = NUL, dataReady = False\<rparr>"

section \<open>adjustTimeZone\<close>

definition TZ_HOURS :: int where "TZ_HOURS = 5"
definition TZ_MINUTES :: int where "TZ_MINUTES = 30"

text \<open>\<^verbatim>\<open>c - '0'\<close> in \<^verbatim>\<open>int\<close>; \<^verbatim>\<open>char\<close> is unsigned on the ARM target.\<close>

definition minus_char0 :: "char \<Rightarrow> int" where
  "minus_char0 c = of_char c - 48"

text \<open>The \<^verbatim>\<open>/\<close> and \<^verbatim>\<open>%\<close> of C on \<^verbatim>\<open>int\<close> truncate towards zero.\<close>

definition c_div :: "int \<Rightarrow> int \<Rightarrow> int" where
  "c_div a b = sgn a * sgn b * (\<bar>a\<bar> div \<bar>b\<bar>)"

definition c_mod :: "int \<Rightarrow> int \<Rightarrow> int" where
  "c_mod a b = a - b * c_div a b"

definition digit_char :: "nat \<Rightarrow> char" where
  "digit_char d = ''0123456789'' ! d"

fun dec_digits :: "nat \<Rightarrow> string" where
  "dec_digits n =
     (if n < 10 then [digit_char n] else dec_digits (n div 10) @ [digit_char (n mod 10)])"

declare dec_digits.simps [simp del]

text \<open>The conversion \<^verbatim>\<open>%02d\<close>: at least two characters, a minus sign counted,
  zeros in front.\<close>

definition fmt_02d :: "int \<Rightarrow> string" where
  "fmt_02d i =
     (if i < 0 then CHR ''-'' # dec_digits (nat (- i))
      else if i < 10 then CHR ''0'' # dec_digits (nat i)
      else dec_digits (nat i))"

datatype error = Buffer_overflow

text \<open>\<^verbatim>\<open>sprintf(dst, "%02d%02d%02d", a, b, c)\<close>: the characters and a NUL are
  written from the start of \<open>dst\<close>. Writing past the end of the array is an error
  value of the model.\<close>

definition sprintf_02d3 :: "string \<Rightarrow> int \<Rightarrow> int \<Rightarrow> int \<Rightarrow> error + string" where
  "sprintf_02d3 dst a b c =
     (let out = fmt_02d a @ fmt_02d b @ fmt_02d c @ [NUL]
      in if length out \<le> length dst then Inr (out @ drop (length out) dst)
         else Inl Buffer_overflow)"

definition adjustTimeZone :: "string \<Rightarrow> string \<Rightarrow> error + string" where
  "adjustTimeZone utcTime localTime =
     (let hours = minus_char0 (utcTime ! 0) * 10 + minus_char0 (utcTime ! 1);
          minutes = minus_char0 (utcTime ! 2) * 10 + minus_char0 (utcTime ! 3);
          seconds = minus_char0 (utcTime ! 4) * 10 + minus_char0 (utcTime ! 5);
          minutes = minutes + TZ_MINUTES;
          hours = hours + (TZ_HOURS + c_div minutes 60);
          minutes = c_mod minutes 60;
          hours = c_mod hours 24
      in sprintf_02d3 localTime hours minutes seconds)"

section \<open>parseRMC\<close>

text \<open>
  \<^verbatim>\<open>strtok(s, ",")\<close> and \<^verbatim>\<open>strtok(NULL, ",")\<close>: the position that
  \<^verbatim>\<open>strtok\<close> keeps between calls is passed explicitly as the rest of the string.
  A call skips every leading comma; with nothing left it returns \<^verbatim>\<open>NULL\<close>
  (\<open>None\<close>); otherwise the token runs up to the next comma or the end, and the
  position moves behind that comma.
\<close>

definition strtok :: "string \<Rightarrow> (string \<times> string) option" where
  "strtok s =
     (let s1 = dropWhile (\<lambda>c. c = CHR '','') s
      in if s1 = [] then None
         else Some (takeWhile (\<lambda>c. c \<noteq> CHR '','') s1,
                    drop 1 (dropWhile (\<lambda>c. c \<noteq> CHR '','') s1)))"

text \<open>The body of the \<^verbatim>\<open>switch (fieldCount)\<close>, on the local \<^verbatim>\<open>tempTime\<close>
  and the record.\<close>

definition parse_field :: "nat \<Rightarrow> string \<Rightarrow> string \<times> GpsData \<Rightarrow> string \<times> GpsData" where
  "parse_field fieldCount token st =
     (let tempTime = fst st; g = snd st
      in if fieldCount = 1 then
           (if length token \<ge> 6 then ((strncpy tempTime token 6)[6 := NUL], g) else st)
         else if fieldCount = 2 then
           (if length token > 0 then (tempTime, g\<lparr>mode := token ! 0\<rparr>) else st)
         else if fieldCount = 3 then
           (if length token > 0 then (tempTime, g\<lparr>lat := (strncpy (lat g) token 10)[10 := NUL]\<rparr>)
            else st)
         else if fieldCount = 4 then
           (if length token > 0 then (tempTime, g\<lparr>ns := token ! 0\<rparr>) else st)
         else if fieldCount = 5 then
           (if length token > 0 then (tempTime, g\<lparr>lon := (strncpy (lon g) token 10)[10 := NUL]\<rparr>)
            else st)
         else if fieldCount = 6 then
           (if length token > 0 then (tempTime, g\<lparr>ew := token ! 0\<rparr>) else st)
         else if fieldCount = 7 then
           (if length token > 0 then (tempTime, g\<lparr>speed := Knots_times_1852 token\<rparr>)
            else (tempTime, g\<lparr>speed := Speed_zero\<rparr>))
         else if fieldCount = 9 then
           (if length token \<ge> 6
            then (tempTime, g\<lparr>date := (strncpy (date g) token 6)[6 := NUL], dataReady := True\<rparr>)
            else st)
         else st)"

lemma strtok_shorter: "strtok s = Some (token, rest) \<Longrightarrow> length rest < length s"
proof -
  assume a: "strtok s = Some (token, rest)"
  define s1 where "s1 = dropWhile (\<lambda>c. c = CHR '','') s"
  from a have ne: "s1 \<noteq> []" and r: "rest = drop 1 (dropWhile (\<lambda>c. c \<noteq> CHR '','') s1)"
    by (auto simp: strtok_def Let_def s1_def split: if_splits)
  have "length (dropWhile (\<lambda>c. c \<noteq> CHR '','') s1) \<le> length s1"
    by (rule length_dropWhile_le)
  with ne r have "length rest < length s1" by (cases s1) auto
  moreover have "length s1 \<le> length s" unfolding s1_def by (rule length_dropWhile_le)
  ultimately show ?thesis by simp
qed

text \<open>The \<^verbatim>\<open>while (token != NULL)\<close> loop.\<close>

function parse_loop ::
  "(string \<times> string) option \<Rightarrow> nat \<Rightarrow> string \<times> GpsData \<Rightarrow> string \<times> GpsData" where
  "parse_loop None fieldCount st = st"
| "parse_loop (Some (token, rest)) fieldCount st =
     parse_loop (strtok rest) (fieldCount + 1) (parse_field fieldCount token st)"
  by pat_completeness auto
termination
  by (relation "measure (\<lambda>(t, fc, st). case t of None \<Rightarrow> 0 | Some (tok, rest) \<Rightarrow> Suc (length rest))")
     (auto split: option.splits dest: strtok_shorter)

text \<open>
  What \<^verbatim>\<open>parseRMC\<close> prints on \<^verbatim>\<open>Serial1\<close>, under the names the
  specification gives the outcomes: the record line (\<open>Updated\<close>),
  \<^verbatim>\<open>gps signal lost\<close> (\<open>SignalLost\<close>) or nothing (\<open>Malformed\<close>).
\<close>

datatype outcome = Updated | SignalLost | Malformed

text \<open>
  \<^verbatim>\<open>char tempTime[7]\<close> has no initialiser: \<open>tempTime0\<close> is whatever the seven
  bytes of the stack hold when \<^verbatim>\<open>parseRMC\<close> is entered. \<open>sentence\<close> is the
  character array passed in; \<^verbatim>\<open>strtok\<close> reads the C string in it.
\<close>

definition parseRMC :: "string \<Rightarrow> GpsData \<Rightarrow> string \<Rightarrow> error + GpsData \<times> outcome" where
  "parseRMC tempTime0 gpsData sentence =
     (let st = parse_loop (strtok (cstr sentence)) 0 (tempTime0, gpsData\<lparr>dataReady := False\<rparr>);
          tempTime = fst st; g = snd st
      in if dataReady g \<and> mode g = CHR ''A'' then
           (case adjustTimeZone tempTime (time g) of
              Inl e \<Rightarrow> Inl e
            | Inr t \<Rightarrow> Inr (g\<lparr>time := t\<rparr>, Updated))
         else if mode g = CHR ''V'' then Inr (g, SignalLost)
         else Inr (g, Malformed))"

section \<open>The sentence buffer of loop\<close>

record assembler =
  buffer :: string
  bufferIndex :: nat

definition assembler_init :: assembler where
  "assembler_init = \<lparr>buffer = replicate 128 NUL, bufferIndex = 0\<rparr>"

text \<open>
  One round of \<^verbatim>\<open>while (Serial1.available() > 0)\<close> for the byte \<open>c\<close> read. The
  second component is the sentence, when one is closed: the C string that
  \<^verbatim>\<open>strstr\<close> and \<^verbatim>\<open>parseRMC\<close> read in \<^verbatim>\<open>buffer\<close> once the NUL is
  written at \<^verbatim>\<open>bufferIndex\<close>. A zero byte of the stream is buffered like any
  other byte, and ends that string early.
  \<^verbatim>\<open>bufferIndex\<close> only ever holds 0 to 127, so it is a \<^typ>\<open>nat\<close>.
  The NULs that \<^verbatim>\<open>strtok\<close> writes over the commas of \<^verbatim>\<open>buffer\<close> are left
  out: \<^verbatim>\<open>bufferIndex\<close> is 0 by then, and every byte is written again before it
  is read.
\<close>

definition feed :: "char \<Rightarrow> assembler \<Rightarrow> assembler \<times> string option" where
  "feed c a =
     (if c = CHR ''$'' then (a\<lparr>bufferIndex := 0\<rparr>, None)
      else if c = LF \<or> c = CR then
        (if bufferIndex a > 0
         then (let b = (buffer a)[bufferIndex a := NUL]
               in (\<lparr>buffer = b, bufferIndex = 0\<rparr>, Some (cstr b)))
         else (a\<lparr>bufferIndex := 0\<rparr>, None))
      else if bufferIndex a < 128 - 1
        then (\<lparr>buffer = (buffer a)[bufferIndex a := c], bufferIndex = bufferIndex a + 1\<rparr>, None)
      else (a, None))"

text \<open>The state after a sequence of bytes.\<close>

fun feed_all :: "assembler \<Rightarrow> string \<Rightarrow> assembler" where
  "feed_all a [] = a"
| "feed_all a (c # cs) = feed_all (fst (feed c a)) cs"

section \<open>The logging interval of loop\<close>

definition LOG_INTERVAL_MS :: "32 word" where "LOG_INTERVAL_MS = 5000"

text \<open>
  \<^verbatim>\<open>if (currentMillis - lastLogTime >= LOG_INTERVAL_MS) lastLogTime = currentMillis;\<close>
  on \<^verbatim>\<open>unsigned long\<close> (32 bits): whether the branch is taken, and the new
  \<^verbatim>\<open>lastLogTime\<close>.
\<close>

definition tick :: "32 word \<Rightarrow> 32 word \<Rightarrow> bool \<times> 32 word" where
  "tick currentMillis lastLogTime =
     (if currentMillis - lastLogTime \<ge> LOG_INTERVAL_MS then (True, currentMillis)
      else (False, lastLogTime))"

section \<open>Decimal time strings\<close>

text \<open>The two decimal digits of a number below 100, as \<open>HH\<close>, \<open>MM\<close> and \<open>SS\<close> are
  written in a sentence.\<close>

definition two_digits :: "nat \<Rightarrow> string" where
  "two_digits n = [digit_char (n div 10), digit_char (n mod 10)]"

section \<open>Runs of the logging interval\<close>

text \<open>
  \<^verbatim>\<open>millis()\<close> at \<open>t\<close> milliseconds after the start: the count wraps at \<open>2 ^ 32\<close>.
\<close>

definition millis :: "nat \<Rightarrow> 32 word" where
  "millis t = of_nat t"

text \<open>
  The rounds of \<^verbatim>\<open>loop\<close> at the times \<open>ts\<close> (milliseconds after the start),
  from a given \<^verbatim>\<open>lastLogTime\<close>: the times at which the branch is taken.
\<close>

fun fire_times :: "32 word \<Rightarrow> nat list \<Rightarrow> nat list" where
  "fire_times lastLogTime [] = []"
| "fire_times lastLogTime (t # ts) =
     (let r = tick (millis t) lastLogTime
      in if fst r then t # fire_times (snd r) ts else fire_times (snd r) ts)"

section \<open>Tokens and fields of a sentence\<close>

text \<open>The tokens that the calls of \<^verbatim>\<open>strtok\<close> return, in order, up to
  \<^verbatim>\<open>NULL\<close>.\<close>

function tokens_from :: "(string \<times> string) option \<Rightarrow> string list" where
  "tokens_from None = []"
| "tokens_from (Some (token, rest)) = token # tokens_from (strtok rest)"
  by pat_completeness auto
termination
  by (relation "measure (\<lambda>t. case t of None \<Rightarrow> 0 | Some (tok, rest) \<Rightarrow> Suc (length rest))")
     (auto split: option.splits dest: strtok_shorter)

definition tokens :: "string \<Rightarrow> string list" where
  "tokens s = tokens_from (strtok s)"

text \<open>The switch applied to a list of tokens, counting from \<open>fieldCount\<close>.\<close>

fun parse_tokens :: "string list \<Rightarrow> nat \<Rightarrow> string \<times> GpsData \<Rightarrow> string \<times> GpsData" where
  "parse_tokens [] fieldCount st = st"
| "parse_tokens (token # ts) fieldCount st =
     parse_tokens ts (fieldCount + 1) (parse_field fieldCount token st)"

text \<open>
  The positional fields of a sentence, as the specification numbers them: the sentence
  split at every comma, so that field \<open>i\<close> lies between comma \<open>i\<close> and comma \<open>i + 1\<close>
  and two adjacent commas enclose an empty field.
\<close>

fun split_fields :: "string \<Rightarrow> string list" where
  "split_fields [] = [[]]"
| "split_fields (c # cs) =
     (if c = CHR '','' then [] # split_fields cs
      else (case split_fields cs of [] \<Rightarrow> [[c]] | f # fs \<Rightarrow> (c # f) # fs))"

section \<open>The bytes of the open sentence\<close>

text \<open>
  The bytes received since the most recent \<open>$\<close>, line feed or carriage return, or
  since the start when there was none.
\<close>

definition is_boundary :: "char \<Rightarrow> bool" where
  "is_boundary c = (c = CHR ''$'' \<or> c = LF \<or> c = CR)"

definition pending :: "string \<Rightarrow> string" where
  "pending bs = rev (takeWhile (\<lambda>c. \<not> is_boundary c) (rev bs))"

text \<open>The buffer holds the first 127 of the bytes \<open>p\<close>, and \<^verbatim>\<open>bufferIndex\<close> counts
  them.\<close>

definition holds :: "assembler \<Rightarrow> string \<Rightarrow> bool" where
  "holds a p = (length (buffer a) = 128 \<and> bufferIndex a = length (take 127 p) \<and>
                take (bufferIndex a) (buffer a) = take 127 p)"

section \<open>Terminated character arrays\<close>

text \<open>An array of \<open>w\<close> bytes that holds a NUL within them: a C string of length below
  \<open>w\<close>.\<close>

definition terminated :: "nat \<Rightarrow> string \<Rightarrow> bool" where
  "terminated w a = (length a = w \<and> length (cstr a) < w)"

text \<open>The four character arrays of the record, with their declared sizes.\<close>

definition widths_ok :: "GpsData \<Rightarrow> bool" where
  "widths_ok g = (terminated 7 (date g) \<and> terminated 7 (time g) \<and>
                  terminated 11 (lat g) \<and> terminated 11 (lon g))"

section \<open>Properties of adjustTimeZone\<close>

lemma digit_char_code: "k < 10 \<Longrightarrow> of_char (digit_char k) = 48 + int k"
proof -
  assume "k < 10"
  then have "k \<in> set [0..<10]" by simp
  then show ?thesis unfolding digit_char_def by (simp add: upt_rec) (elim disjE; simp)
qed

lemma minus_char0_digit: "k < 10 \<Longrightarrow> minus_char0 (digit_char k) = int k"
  by (simp add: minus_char0_def digit_char_code)

lemma fmt_02d_two_digits: "n < 100 \<Longrightarrow> fmt_02d (int n) = two_digits n"
proof (cases "n < 10")
  case True
  then show ?thesis
    by (simp add: fmt_02d_def two_digits_def dec_digits.simps [of n] digit_char_def)
next
  case False
  assume "n < 100"
  with False have "n div 10 < 10" by simp
  with False show ?thesis
    by (simp add: fmt_02d_def two_digits_def dec_digits.simps [of n] dec_digits.simps [of "n div 10"])
qed

lemma c_div_nonneg: "0 \<le> a \<Longrightarrow> 0 < b \<Longrightarrow> c_div a b = a div b"
  by (cases "a = 0") (simp_all add: c_div_def)

lemma c_mod_nonneg: "0 \<le> a \<Longrightarrow> 0 < b \<Longrightarrow> c_mod a b = a mod b"
  by (simp add: c_mod_def c_div_nonneg minus_mult_div_eq_mod)

lemma two_digits_value:
  "n < 100 \<Longrightarrow> minus_char0 (two_digits n ! 0) * 10 + minus_char0 (two_digits n ! 1) = int n"
proof -
  assume "n < 100"
  then have "n div 10 < 10" by simp
  then have "minus_char0 (two_digits n ! 0) * 10 + minus_char0 (two_digits n ! 1) =
             int (n div 10) * 10 + int (n mod 10)"
    by (simp add: two_digits_def minus_char0_digit)
  also have "\<dots> = int n" by presburger
  finally show ?thesis .
qed

lemma length_two_digits: "length (two_digits n) = 2"
  by (simp add: two_digits_def)

lemma adjustTimeZone_digits:
  assumes "h < 100" "m < 100" "s < 100" "length localTime = 7"
  shows "adjustTimeZone (two_digits h @ two_digits m @ two_digits s @ rest) localTime =
         Inr (two_digits ((h + 5 + (m + 30) div 60) mod 24) @ two_digits ((m + 30) mod 60) @
              two_digits s @ [NUL])"
proof -
  let ?u = "two_digits h @ two_digits m @ two_digits s @ rest"
  have hh: "minus_char0 (?u ! 0) * 10 + minus_char0 (?u ! 1) = int h"
    using two_digits_value [OF assms(1)] by (simp add: nth_append length_two_digits)
  have mm: "minus_char0 (?u ! 2) * 10 + minus_char0 (?u ! 3) = int m"
    using two_digits_value [OF assms(2)] by (simp add: nth_append length_two_digits)
  have ss: "minus_char0 (?u ! 4) * 10 + minus_char0 (?u ! 5) = int s"
    using two_digits_value [OF assms(3)] by (simp add: nth_append length_two_digits)
  have m1: "c_mod (int m + 30) 60 = int ((m + 30) mod 60)"
    by (simp add: c_mod_nonneg zmod_int)
  have d1: "c_div (int m + 30) 60 = int ((m + 30) div 60)"
    by (simp add: c_div_nonneg zdiv_int)
  have h1: "c_mod (int h + (5 + int ((m + 30) div 60))) 24 = int ((h + 5 + (m + 30) div 60) mod 24)"
    by (simp add: c_mod_nonneg zmod_int add.assoc)
  have f1: "fmt_02d (int ((h + 5 + (m + 30) div 60) mod 24)) = two_digits ((h + 5 + (m + 30) div 60) mod 24)"
    by (rule fmt_02d_two_digits) simp
  have f2: "fmt_02d (int ((m + 30) mod 60)) = two_digits ((m + 30) mod 60)"
    by (rule fmt_02d_two_digits) simp
  have f3: "fmt_02d (int s) = two_digits s"
    by (rule fmt_02d_two_digits) (rule assms(3))
  show ?thesis
    unfolding adjustTimeZone_def Let_def hh mm ss TZ_HOURS_def TZ_MINUTES_def m1 d1 h1
      sprintf_02d3_def f1 f2 f3
    by (simp add: length_two_digits assms(4))
qed

lemma mod_day: "(r::nat) < 3600 \<Longrightarrow> (3600 * H + r) mod 86400 = 3600 * (H mod 24) + r"
proof -
  assume r: "r < 3600"
  have "(3600 * H + r) mod (3600 * 24) =
        3600 * ((3600 * H + r) div 3600 mod 24) + (3600 * H + r) mod 3600"
    by (rule mod_mult2_eq)
  with r show ?thesis by simp
qed

lemma day_seconds:
  fixes h m s :: nat
  assumes "m < 60" "s < 60"
  shows "3600 * ((h + 5 + (m + 30) div 60) mod 24) + 60 * ((m + 30) mod 60) + s =
         (3600 * h + 60 * m + s + (3600 * 5 + 60 * 30)) mod 86400"
proof -
  define q where "q = (m + 30) div 60"
  define t where "t = (m + 30) mod 60"
  have dm: "m + 30 = 60 * q + t" and t: "t < 60" by (simp_all add: q_def t_def)
  from dm have e: "3600 * h + 60 * m + s + (3600 * 5 + 60 * 30) = 3600 * (h + 5 + q) + (60 * t + s)"
    by arith
  from t assms(2) have "60 * t + s < 3600" by arith
  then have "(3600 * (h + 5 + q) + (60 * t + s)) mod 86400 = 3600 * ((h + 5 + q) mod 24) + (60 * t + s)"
    by (rule mod_day)
  with e show ?thesis unfolding q_def t_def by (simp only: add.assoc)
qed

text \<open>
  Claim C3, amended. For hours below 24 and minutes and seconds below 60, written as six
  decimal digits, \<^verbatim>\<open>adjustTimeZone\<close> writes the six digits of the time plus
  5 h 30 min modulo 24 hours and a terminator: a minute sum of 60 or more carries into the
  hours, the hours are taken modulo 24, the seconds are copied, and every component has
  two digits. The input 123519 gives 180519.
\<close>

theorem adjustTimeZone_valid_time:
  assumes "h < 24" "m < 60" "s < 60" "length localTime = 7"
  shows "adjustTimeZone (two_digits h @ two_digits m @ two_digits s @ rest) localTime =
           Inr (two_digits ((h + 5 + (m + 30) div 60) mod 24) @ two_digits ((m + 30) mod 60) @
                two_digits s @ [NUL])
         \<and> 3600 * ((h + 5 + (m + 30) div 60) mod 24) + 60 * ((m + 30) mod 60) + s =
           (3600 * h + 60 * m + s + (3600 * 5 + 60 * 30)) mod 86400
         \<and> adjustTimeZone (''123519'' @ [NUL]) localTime = Inr (''180519'' @ [NUL])"
proof (intro conjI)
  show "adjustTimeZone (two_digits h @ two_digits m @ two_digits s @ rest) localTime =
           Inr (two_digits ((h + 5 + (m + 30) div 60) mod 24) @ two_digits ((m + 30) mod 60) @
                two_digits s @ [NUL])"
    using assms by (intro adjustTimeZone_digits) simp_all
  show "3600 * ((h + 5 + (m + 30) div 60) mod 24) + 60 * ((m + 30) mod 60) + s =
           (3600 * h + 60 * m + s + (3600 * 5 + 60 * 30)) mod 86400"
    using assms by (intro day_seconds)
  have "adjustTimeZone (two_digits 12 @ two_digits 35 @ two_digits 19 @ [NUL]) localTime =
        Inr (two_digits ((12 + 5 + (35 + 30) div 60) mod 24) @ two_digits ((35 + 30) mod 60) @
              two_digits 19 @ [NUL])"
    using assms(4) by (intro adjustTimeZone_digits) simp_all
  then show "adjustTimeZone (''123519'' @ [NUL]) localTime = Inr (''180519'' @ [NUL])"
    by (simp add: two_digits_def digit_char_def)
qed

text \<open>The conversion at 23:59:59, which wraps past midnight.\<close>

theorem adjustTimeZone_valid_time_witness:
  "(23::nat) < 24 \<and> (59::nat) < 60 \<and> length (replicate 7 NUL) = 7 \<and>
   adjustTimeZone (''235959'' @ [NUL]) (replicate 7 NUL) = Inr (''052959'' @ [NUL])"
  using adjustTimeZone_valid_time [of 23 59 59 "replicate 7 NUL" "[NUL]"]
  by (simp add: two_digits_def digit_char_def)

text \<open>The input 123519 does not give 180019: the minutes of the result are 05.\<close>

theorem adjustTimeZone_123519_counterexample:
  "\<exists>t. adjustTimeZone (''123519'' @ [NUL]) (replicate 7 NUL) = Inr t \<and> cstr t = ''180519''
       \<and> cstr t \<noteq> ''180019''"
  by (simp add: adjustTimeZone_def sprintf_02d3_def fmt_02d_def minus_char0_def cstr_def
     c_div_def c_mod_def TZ_HOURS_def TZ_MINUTES_def dec_digits.simps digit_char_def)

section \<open>Properties of the logging interval\<close>

lemma tick_fires_late:
  assumes "lf \<le> t" and "fst (tick (millis t) (millis lf))"
  shows "lf + 5000 \<le> t"
proof -
  from assms(2) have "(5000 :: 32 word) \<le> of_nat t - of_nat lf"
    by (simp add: tick_def millis_def LOG_INTERVAL_MS_def split: if_splits)
  also from assms(1) have "of_nat t - of_nat lf = (of_nat (t - lf) :: 32 word)"
    by simp
  finally have "unat (5000 :: 32 word) \<le> unat (of_nat (t - lf) :: 32 word)"
    by (simp add: word_le_nat_alt)
  also have "unat (of_nat (t - lf) :: 32 word) \<le> t - lf"
    by (simp add: unat_of_nat)
  finally show ?thesis using assms(1) by simp
qed

lemma tick_snd: "snd (tick now l) = (if fst (tick now l) then now else l)"
  by (simp add: tick_def)

lemma fire_times_spaced:
  "sorted (lf # ts) \<Longrightarrow> sorted_wrt (\<lambda>a b. a + 5000 \<le> b) (lf # fire_times (millis lf) ts)"
proof (induction ts arbitrary: lf)
  case Nil
  then show ?case by simp
next
  case (Cons t ts)
  from Cons.prems have le: "lf \<le> t" and s1: "sorted (t # ts)" and s2: "sorted (lf # ts)"
    by auto
  show ?case
  proof (cases "fst (tick (millis t) (millis lf))")
    case True
    with le have far: "lf + 5000 \<le> t" by (intro tick_fires_late)
    from Cons.IH [OF s1] have ih: "sorted_wrt (\<lambda>a b. a + 5000 \<le> b) (t # fire_times (millis t) ts)" .
    from True have ft: "fire_times (millis lf) (t # ts) = t # fire_times (millis t) ts"
      by (simp add: tick_snd)
    from ih far show ?thesis unfolding ft by auto
  next
    case False
    then have ft: "fire_times (millis lf) (t # ts) = fire_times (millis lf) ts"
      by (simp add: tick_snd)
    from Cons.IH [OF s2] show ?thesis unfolding ft .
  qed
qed

text \<open>
  Claim C8. A round takes the logging branch exactly when
  \<^verbatim>\<open>currentMillis - lastLogTime\<close>, subtracted in 32 unsigned bits, is at least 5000,
  and then stores \<^verbatim>\<open>currentMillis\<close> itself in \<^verbatim>\<open>lastLogTime\<close>; otherwise
  \<^verbatim>\<open>lastLogTime\<close> is kept. Over rounds at non-decreasing times, however many and
  however close, the first firing comes at least 5000 ms after the time held in
  \<^verbatim>\<open>lastLogTime\<close> and every later firing at least 5000 ms after the one before:
  no interval of 5000 ms holds two firings.
\<close>

theorem tick_fires_once_per_interval:
  assumes "sorted (lf # ts)"
  shows "fst (tick now lastLogTime) = (now - lastLogTime \<ge> LOG_INTERVAL_MS)
       \<and> snd (tick now lastLogTime) = (if fst (tick now lastLogTime) then now else lastLogTime)
       \<and> LOG_INTERVAL_MS = 5000
       \<and> sorted_wrt (\<lambda>a b. a + 5000 \<le> b) (lf # fire_times (millis lf) ts)"
proof (intro conjI)
  show "fst (tick now lastLogTime) = (now - lastLogTime \<ge> LOG_INTERVAL_MS)"
    by (simp add: tick_def)
  show "snd (tick now lastLogTime) = (if fst (tick now lastLogTime) then now else lastLogTime)"
    by (rule tick_snd)
  show "LOG_INTERVAL_MS = 5000"
    by (rule LOG_INTERVAL_MS_def)
  from assms show "sorted_wrt (\<lambda>a b. a + 5000 \<le> b) (lf # fire_times (millis lf) ts)"
    by (rule fire_times_spaced)
qed

text \<open>Rounds just before and at the end of an interval, twice of them across the
  wrap of the counter at \<open>2 ^ 32 = 4294967296\<close>.\<close>

theorem tick_fires_once_per_interval_witness:
  "sorted [0, 4999, 5000, 9999, 10000, 4294967000, 4294971999, 4294972000 :: nat]
   \<and> fire_times (millis 0) [4999, 5000, 9999, 10000, 4294967000, 4294971999, 4294972000]
       = [5000, 10000, 4294967000, 4294972000]
   \<and> sorted_wrt (\<lambda>a b. a + 5000 \<le> b) [0, 5000, 10000, 4294967000, 4294972000 :: nat]
   \<and> tick 4704 4294967000 = (True, 4704)"
  using tick_fires_once_per_interval
    [of 0 "[4999, 5000, 9999, 10000, 4294967000, 4294971999, 4294972000]" 4704 4294967000]
  by (simp add: millis_def tick_def LOG_INTERVAL_MS_def)

section \<open>Tokens are the non-empty fields\<close>

lemma parse_loop_tokens: "parse_loop x fc st = parse_tokens (tokens_from x) fc st"
  by (induction x fc st rule: parse_loop.induct) simp_all

lemma split_fields_not_Nil: "split_fields s \<noteq> []"
  by (cases s) (simp_all split: list.splits)

lemma split_fields_unfold:
  "split_fields s = takeWhile (\<lambda>c. c \<noteq> CHR '','') s #
     (if dropWhile (\<lambda>c. c \<noteq> CHR '','') s = [] then []
      else split_fields (drop 1 (dropWhile (\<lambda>c. c \<noteq> CHR '','') s)))"
proof (induction s)
  case Nil
  then show ?case by simp
next
  case (Cons c cs)
  show ?case
  proof (cases "c = CHR '',''")
    case True
    then show ?thesis by simp
  next
    case False
    then have "split_fields (c # cs) =
        (case split_fields cs of [] \<Rightarrow> [[c]] | f # fs \<Rightarrow> (c # f) # fs)"
      by simp
    also have "\<dots> = (c # takeWhile (\<lambda>c. c \<noteq> CHR '','') cs) #
       (if dropWhile (\<lambda>c. c \<noteq> CHR '','') cs = [] then []
        else split_fields (drop 1 (dropWhile (\<lambda>c. c \<noteq> CHR '','') cs)))"
      by (subst Cons.IH) (simp only: list.case)
    finally show ?thesis using False by auto
  qed
qed

lemma strtok_Nil: "strtok [] = None"
  by (simp add: strtok_def)

lemma strtok_comma: "strtok (CHR '','' # cs) = strtok cs"
  by (simp add: strtok_def)

lemma strtok_other:
  "c \<noteq> CHR '','' \<Longrightarrow>
   strtok (c # cs) = Some (c # takeWhile (\<lambda>c. c \<noteq> CHR '','') cs,
                           drop 1 (dropWhile (\<lambda>c. c \<noteq> CHR '','') cs))"
  by (simp add: strtok_def)

lemma tokens_Nil: "tokens [] = []"
  by (simp only: tokens_def strtok_Nil tokens_from.simps)

lemma tokens_comma: "tokens (CHR '','' # cs) = tokens cs"
  by (simp only: tokens_def strtok_comma)

lemma tokens_other:
  "c \<noteq> CHR '','' \<Longrightarrow>
   tokens (c # cs) = (c # takeWhile (\<lambda>c. c \<noteq> CHR '','') cs) #
                     tokens (drop 1 (dropWhile (\<lambda>c. c \<noteq> CHR '','') cs))"
proof -
  assume "c \<noteq> CHR '',''"
  then have "strtok (c # cs) = Some (c # takeWhile (\<lambda>c. c \<noteq> CHR '','') cs,
                           drop 1 (dropWhile (\<lambda>c. c \<noteq> CHR '','') cs))"
    by (rule strtok_other)
  then show ?thesis by (simp only: tokens_def tokens_from.simps)
qed

lemma tokens_fields: "tokens s = filter (\<lambda>f. f \<noteq> []) (split_fields s)"
proof (induction s rule: length_induct)
  case (1 s)
  show ?case
  proof (cases s)
    case Nil
    then show ?thesis by (simp add: tokens_Nil)
  next
    case (Cons c cs)
    show ?thesis
    proof (cases "c = CHR '',''")
      case True
      have "tokens cs = filter (\<lambda>f. f \<noteq> []) (split_fields cs)"
        by (rule 1 [rule_format]) (simp add: Cons)
      with True show ?thesis unfolding Cons by (simp add: tokens_comma)
    next
      case False
      let ?r = "drop 1 (dropWhile (\<lambda>c. c \<noteq> CHR '','') cs)"
      have len: "length ?r < length s"
        using Cons length_dropWhile_le [of "\<lambda>c. c \<noteq> CHR '',''" cs] by simp
      have ih: "tokens ?r = filter (\<lambda>f. f \<noteq> []) (split_fields ?r)"
        by (rule 1 [rule_format]) (rule len)
      have f: "split_fields (c # cs) = (c # takeWhile (\<lambda>c. c \<noteq> CHR '','') cs) #
          (if dropWhile (\<lambda>c. c \<noteq> CHR '','') cs = [] then [] else split_fields ?r)"
      proof -
        have "split_fields (c # cs) = takeWhile (\<lambda>c. c \<noteq> CHR '','') (c # cs) #
          (if dropWhile (\<lambda>c. c \<noteq> CHR '','') (c # cs) = [] then []
           else split_fields (drop 1 (dropWhile (\<lambda>c. c \<noteq> CHR '','') (c # cs))))"
          by (rule split_fields_unfold)
        with False show ?thesis
          by (simp only: takeWhile.simps dropWhile.simps not_False_eq_True if_True)
      qed
      show ?thesis
      proof (cases "dropWhile (\<lambda>c. c \<noteq> CHR '','') cs = []")
        case True
        then have "split_fields (c # cs) = [c # takeWhile (\<lambda>c. c \<noteq> CHR '','') cs]"
          unfolding f by simp
        moreover have "tokens (c # cs) = [c # takeWhile (\<lambda>c. c \<noteq> CHR '','') cs]"
          unfolding tokens_other [OF False] True by (simp add: tokens_Nil)
        ultimately show ?thesis unfolding Cons by simp
      next
        case nonempty: False
        then have "split_fields (c # cs) = (c # takeWhile (\<lambda>c. c \<noteq> CHR '','') cs) # split_fields ?r"
          unfolding f by auto
        moreover have "tokens (c # cs) = (c # takeWhile (\<lambda>c. c \<noteq> CHR '','') cs) #
            filter (\<lambda>f. f \<noteq> []) (split_fields ?r)"
          unfolding tokens_other [OF False] ih ..
        ultimately show ?thesis unfolding Cons by simp
      qed
    qed
  qed
qed

lemma take_filter_prefix:
  "\<forall>x \<in> set (take k xs). P x \<Longrightarrow> take k (filter P xs) = take k xs"
proof (induction xs arbitrary: k)
  case Nil
  then show ?case by simp
next
  case (Cons x xs)
  then show ?case by (cases k) simp_all
qed

section \<open>What the loop leaves in the record\<close>

lemma parse_field_mode:
  "mode (snd (parse_field fc t st)) = (if fc = 2 \<and> t \<noteq> [] then t ! 0 else mode (snd st))"
  by (simp add: parse_field_def Let_def)

lemma parse_field_dataReady:
  "dataReady (snd (parse_field fc t st)) = (if fc = 9 \<and> 6 \<le> length t then True else dataReady (snd st))"
  by (simp add: parse_field_def Let_def)

lemma parse_field_date:
  "date (snd (parse_field fc t st)) =
     (if fc = 9 \<and> 6 \<le> length t then (strncpy (date (snd st)) t 6)[6 := NUL] else date (snd st))"
  by (simp add: parse_field_def Let_def)

lemma parse_field_time: "time (snd (parse_field fc t st)) = time (snd st)"
  by (simp add: parse_field_def Let_def)

lemma parse_tokens_time: "time (snd (parse_tokens ts fc st)) = time (snd st)"
  by (induction ts arbitrary: fc st) (simp_all add: parse_field_time)

lemma parse_tokens_mode:
  "mode (snd (parse_tokens ts fc st)) =
     (if fc \<le> 2 \<and> 2 - fc < length ts \<and> ts ! (2 - fc) \<noteq> [] then ts ! (2 - fc) ! 0
      else mode (snd st))"
proof (induction ts arbitrary: fc st)
  case Nil
  then show ?case by simp
next
  case (Cons t ts)
  show ?case
  proof (cases "fc < 2")
    case True
    then have "2 - fc = Suc (2 - (fc + 1))" by simp
    with True show ?thesis by (simp add: Cons.IH parse_field_mode del: One_nat_def)
  next
    case False
    then show ?thesis by (simp add: Cons.IH parse_field_mode)
  qed
qed

lemma parse_tokens_dataReady:
  "dataReady (snd (parse_tokens ts fc st)) =
     (if fc \<le> 9 \<and> 9 - fc < length ts \<and> 6 \<le> length (ts ! (9 - fc)) then True
      else dataReady (snd st))"
proof (induction ts arbitrary: fc st)
  case Nil
  then show ?case by simp
next
  case (Cons t ts)
  show ?case
  proof (cases "fc < 9")
    case True
    then have "9 - fc = Suc (9 - (fc + 1))" by simp
    with True show ?thesis by (simp add: Cons.IH parse_field_dataReady del: One_nat_def)
  next
    case False
    then show ?thesis by (simp add: Cons.IH parse_field_dataReady)
  qed
qed

lemma parse_tokens_date:
  "date (snd (parse_tokens ts fc st)) =
     (if fc \<le> 9 \<and> 9 - fc < length ts \<and> 6 \<le> length (ts ! (9 - fc))
      then (strncpy (date (snd st)) (ts ! (9 - fc)) 6)[6 := NUL]
      else date (snd st))"
proof (induction ts arbitrary: fc st)
  case Nil
  then show ?case by simp
next
  case (Cons t ts)
  show ?case
  proof (cases "fc < 9")
    case True
    then have "9 - fc = Suc (9 - (fc + 1))" by simp
    with True show ?thesis by (simp add: Cons.IH parse_field_date del: One_nat_def)
  next
    case False
    then show ?thesis by (simp add: Cons.IH parse_field_date)
  qed
qed

lemma tokens_nonempty: "t \<in> set (tokens s) \<Longrightarrow> t \<noteq> []"
  by (simp add: tokens_fields)

lemma tokens_agree:
  assumes "\<forall>f \<in> set (take k (split_fields s)). f \<noteq> []" and "i < k"
  shows "(i < length (tokens s)) = (i < length (split_fields s))"
    and "i < length (split_fields s) \<Longrightarrow> tokens s ! i = split_fields s ! i"
proof -
  from assms(1) have tk: "take k (tokens s) = take k (split_fields s)"
    unfolding tokens_fields by (rule take_filter_prefix)
  then have "length (take k (tokens s)) = length (take k (split_fields s))" by simp
  with assms(2) show "(i < length (tokens s)) = (i < length (split_fields s))"
    by (simp add: min_def split: if_splits)
  assume "i < length (split_fields s)"
  from assms(2) have "tokens s ! i = take k (tokens s) ! i" by simp
  also have "\<dots> = take k (split_fields s) ! i" by (simp only: tk)
  also from assms(2) have "\<dots> = split_fields s ! i" by simp
  finally show "tokens s ! i = split_fields s ! i" .
qed

lemma parseRMC_tokens:
  "parseRMC tempTime0 gpsData sentence =
     (let st = parse_tokens (tokens (cstr sentence)) 0 (tempTime0, gpsData\<lparr>dataReady := False\<rparr>);
          tempTime = fst st; g = snd st
      in if dataReady g \<and> mode g = CHR ''A'' then
           (case adjustTimeZone tempTime (time g) of
              Inl e \<Rightarrow> Inl e
            | Inr t \<Rightarrow> Inr (g\<lparr>time := t\<rparr>, Updated))
         else if mode g = CHR ''V'' then Inr (g, SignalLost)
         else Inr (g, Malformed))"
  by (simp only: parseRMC_def parse_loop_tokens tokens_def)

lemma parse_loop_strtok: "parse_loop (strtok s) fc st = parse_tokens (tokens s) fc st"
  by (simp only: parse_loop_tokens tokens_def)

section \<open>Evaluating the decoder on a sentence\<close>

lemma replicate_numeral: "replicate (numeral k) x = x # replicate (pred_numeral k) x"
  by (simp add: numeral_eq_Suc)

lemma list_update_Cons_numeral: "(x # xs)[numeral k := y] = x # xs[pred_numeral k := y]"
  by (simp add: numeral_eq_Suc)

lemmas eval_parse_loop =
  cstr_def strtok_def parse_field_def gpsData_zero_def strncpy_def
  replicate_numeral list_update_Cons_numeral

lemmas eval_adjustTimeZone =
  adjustTimeZone_def sprintf_02d3_def fmt_02d_def minus_char0_def c_div_def c_mod_def
  TZ_HOURS_def TZ_MINUTES_def dec_digits.simps digit_char_def

section \<open>Empty fields\<close>

text \<open>
  Claim C1, at two sentences with adjacent commas. \<^verbatim>\<open>strtok\<close> returns no empty
  token, so \<^verbatim>\<open>fieldCount\<close> counts the non-empty fields only. In the sentence of a
  receiver without a fix the field at index 2 is \<open>V\<close>, but the third token is the
  last field, \<open>N*53\<close>: \<^verbatim>\<open>mode\<close> becomes \<open>N\<close> and nothing is printed. In a
  sentence with an empty course field (index 8) the date \<open>230394\<close> is the field at
  index 9 but the ninth token: it is not read, \<^verbatim>\<open>dataReady\<close> stays false and the
  date of the record is not written.
\<close>

theorem parseRMC_skips_empty_fields:
  "split_fields (cstr ''GPRMC,,V,,,,,,,,,,N*53'') ! 2 = ''V''
   \<and> parseRMC tempTime0 gpsData_zero ''GPRMC,,V,,,,,,,,,,N*53'' =
       Inr (gpsData_zero\<lparr>mode := CHR ''N''\<rparr>, Malformed)
   \<and> split_fields (cstr ''GPRMC,123519,A,4807.038,N,01131.000,E,022.4,,230394,003.1,W'') ! 9 = ''230394''
   \<and> parseRMC tempTime0 gpsData_zero ''GPRMC,123519,A,4807.038,N,01131.000,E,022.4,,230394,003.1,W'' =
       Inr (gpsData_zero\<lparr>lat := ''4807.038'' @ [NUL, NUL, NUL], ns := CHR ''N'',
              lon := ''01131.000'' @ [NUL, NUL], ew := CHR ''E'',
              speed := Knots_times_1852 ''022.4'', mode := CHR ''A''\<rparr>, Malformed)"
proof (intro conjI)
  show "split_fields (cstr ''GPRMC,,V,,,,,,,,,,N*53'') ! 2 = ''V''"
    by code_simp
  show "parseRMC tempTime0 gpsData_zero ''GPRMC,,V,,,,,,,,,,N*53'' =
       Inr (gpsData_zero\<lparr>mode := CHR ''N''\<rparr>, Malformed)"
    by (simp add: parseRMC_def eval_parse_loop)
  show "split_fields (cstr ''GPRMC,123519,A,4807.038,N,01131.000,E,022.4,,230394,003.1,W'') ! 9 = ''230394''"
    by code_simp
  show "parseRMC tempTime0 gpsData_zero ''GPRMC,123519,A,4807.038,N,01131.000,E,022.4,,230394,003.1,W'' =
       Inr (gpsData_zero\<lparr>lat := ''4807.038'' @ [NUL, NUL, NUL], ns := CHR ''N'',
              lon := ''01131.000'' @ [NUL, NUL], ew := CHR ''E'',
              speed := Knots_times_1852 ''022.4'', mode := CHR ''A''\<rparr>, Malformed)"
    by (simp add: parseRMC_def eval_parse_loop)
qed

section \<open>The status character\<close>

text \<open>
  Claim C4, amended. For every sentence whose fields 0, 1 and 2 are all non-empty, the
  loop of \<^verbatim>\<open>parseRMC\<close> stores the first character of the status field (index 2) in
  \<^verbatim>\<open>gpsData.mode\<close> as it is: \<open>A\<close> for Active, \<open>V\<close> for Void, and any other
  character too, in place of the previous value. Nothing after the loop writes
  \<^verbatim>\<open>mode\<close>: the record of every decode that returns holds that character.
\<close>

theorem parseRMC_mode_from_status:
  assumes "2 < length (split_fields (cstr sentence))"
    and "\<forall>f \<in> set (take 3 (split_fields (cstr sentence))). f \<noteq> []"
  shows "mode (snd (parse_loop (strtok (cstr sentence)) 0
                      (tempTime0, gpsData\<lparr>dataReady := False\<rparr>))) =
           split_fields (cstr sentence) ! 2 ! 0
       \<and> (\<forall>g' out. parseRMC tempTime0 gpsData sentence = Inr (g', out) \<longrightarrow>
             mode g' = split_fields (cstr sentence) ! 2 ! 0)"
proof -
  let ?st = "parse_tokens (tokens (cstr sentence)) 0 (tempTime0, gpsData\<lparr>dataReady := False\<rparr>)"
  from assms(2) have "(2 < length (tokens (cstr sentence))) = (2 < length (split_fields (cstr sentence)))"
    by (rule tokens_agree) simp
  with assms(1) have l: "2 < length (tokens (cstr sentence))" by simp
  have e: "tokens (cstr sentence) ! 2 = split_fields (cstr sentence) ! 2"
    using assms(2) _ assms(1) by (rule tokens_agree) simp
  from l have "tokens (cstr sentence) ! 2 \<in> set (tokens (cstr sentence))" by simp
  then have "tokens (cstr sentence) ! 2 \<noteq> []" by (rule tokens_nonempty)
  with l have "mode (snd ?st) = tokens (cstr sentence) ! 2 ! 0" by (simp add: parse_tokens_mode)
  with e have m: "mode (snd ?st) = split_fields (cstr sentence) ! 2 ! 0" by simp
  have r: "\<forall>g' out. parseRMC tempTime0 gpsData sentence = Inr (g', out) \<longrightarrow> mode g' = mode (snd ?st)"
    by (auto simp add: parseRMC_tokens Let_def split: if_splits sum.splits)
  from m r show ?thesis unfolding parse_loop_strtok by simp
qed

text \<open>
  The reference sentence: the status field is \<open>A\<close>, the decode returns and
  \<^verbatim>\<open>mode\<close> is \<open>A\<close>. And a sentence with a time field of four characters, entered
  with zero bytes in \<^verbatim>\<open>tempTime\<close>: the loop stores \<open>A\<close> as well, before
  \<^verbatim>\<open>sprintf\<close> overruns \<^verbatim>\<open>gpsData.time\<close>.
\<close>

theorem parseRMC_mode_from_status_witness:
  "parseRMC (replicate 7 NUL) gpsData_zero ''GPRMC,123519,A,4807.038,N,01131.000,E,022.4,084.4,230394'' =
     Inr (\<lparr>date = ''230394'' @ [NUL], time = ''180519'' @ [NUL], lat = ''4807.038'' @ [NUL, NUL, NUL],
           ns = CHR ''N'', lon = ''01131.000'' @ [NUL, NUL], ew = CHR ''E'',
           speed = Knots_times_1852 ''022.4'', mode = CHR ''A'', dataReady = True\<rparr>, Updated)
   \<and> take 3 (split_fields (cstr ''GPRMC,123519,A,4807.038,N,01131.000,E,022.4,084.4,230394'')) =
       [''GPRMC'', ''123519'', ''A'']
   \<and> CHR ''A'' = split_fields (cstr ''GPRMC,123519,A,4807.038,N,01131.000,E,022.4,084.4,230394'') ! 2 ! 0
   \<and> take 3 (split_fields (cstr ''GPRMC,1235,A,4807.038,N,01131.000,E,022.4,084.4,230394'')) =
       [''GPRMC'', ''1235'', ''A'']
   \<and> mode (snd (parse_loop (strtok (cstr ''GPRMC,1235,A,4807.038,N,01131.000,E,022.4,084.4,230394'')) 0
                    (replicate 7 NUL, gpsData_zero\<lparr>dataReady := False\<rparr>))) = CHR ''A''"
proof -
  let ?s = "''GPRMC,123519,A,4807.038,N,01131.000,E,022.4,084.4,230394''"
  let ?u = "''GPRMC,1235,A,4807.038,N,01131.000,E,022.4,084.4,230394''"
  let ?g = "\<lparr>date = ''230394'' @ [NUL], time = ''180519'' @ [NUL], lat = ''4807.038'' @ [NUL, NUL, NUL],
           ns = CHR ''N'', lon = ''01131.000'' @ [NUL, NUL], ew = CHR ''E'',
           speed = Knots_times_1852 ''022.4'', mode = CHR ''A'', dataReady = True\<rparr>"
  have l: "parse_loop (strtok (cstr ?s)) 0 (replicate 7 NUL, gpsData_zero\<lparr>dataReady := False\<rparr>) =
      (''123519'' @ [NUL],
       \<lparr>date = ''230394'' @ [NUL], time = replicate 7 NUL, lat = ''4807.038'' @ [NUL, NUL, NUL],
           ns = CHR ''N'', lon = ''01131.000'' @ [NUL, NUL], ew = CHR ''E'',
           speed = Knots_times_1852 ''022.4'', mode = CHR ''A'', dataReady = True\<rparr>)"
    by (simp add: eval_parse_loop)
  have a: "adjustTimeZone (''123519'' @ [NUL]) (replicate 7 NUL) = Inr (''180519'' @ [NUL])"
    by (simp add: eval_adjustTimeZone)
  have h1: "parseRMC (replicate 7 NUL) gpsData_zero ?s = Inr (?g, Updated)"
    unfolding parseRMC_def l Let_def fst_conv snd_conv
    by (simp only: GpsData.simps if_True simp_thms a sum.case)
  have h2: "2 < length (split_fields (cstr ?s))"
    by (simp add: cstr_def)
  have h3: "take 3 (split_fields (cstr ?s)) = [''GPRMC'', ''123519'', ''A'']"
    by (simp add: cstr_def)
  then have h4: "\<forall>f \<in> set (take 3 (split_fields (cstr ?s))). f \<noteq> []"
    by simp
  have k2: "2 < length (split_fields (cstr ?u))"
    by (simp add: cstr_def)
  have k3: "take 3 (split_fields (cstr ?u)) = [''GPRMC'', ''1235'', ''A'']"
    by (simp add: cstr_def)
  then have k4: "\<forall>f \<in> set (take 3 (split_fields (cstr ?u))). f \<noteq> []"
    by simp
  have k5: "split_fields (cstr ?u) ! 2 ! 0 = CHR ''A''"
    by (simp add: cstr_def)
  from parseRMC_mode_from_status [OF h2 h4, of "replicate 7 NUL" gpsData_zero] h1
  have "CHR ''A'' = split_fields (cstr ?s) ! 2 ! 0" by simp
  moreover from parseRMC_mode_from_status [OF k2 k4, of "replicate 7 NUL" gpsData_zero] k5
  have "mode (snd (parse_loop (strtok (cstr ?u)) 0
                    (replicate 7 NUL, gpsData_zero\<lparr>dataReady := False\<rparr>))) = CHR ''A''"
    by simp
  ultimately show ?thesis using h1 h3 k3 by (intro conjI)
qed

text \<open>
  A status \<open>X\<close> after a record with \<^verbatim>\<open>mode == 'A'\<close>: the \<open>X\<close> is stored and the
  \<open>A\<close> is lost. And a sentence with an empty time field: the field at index 2 is \<open>A\<close>,
  but the third token is the latitude, and \<^verbatim>\<open>mode\<close> becomes \<open>4\<close>.
\<close>

theorem parseRMC_mode_counterexample:
  "(case parseRMC (replicate 7 NUL) (gpsData_zero\<lparr>mode := CHR ''A''\<rparr>)
          ''GPRMC,123519,X,4807.038,N,01131.000,E,022.4,084.4,230394'' of
      Inl e \<Rightarrow> False
    | Inr (g', out) \<Rightarrow> mode g' = CHR ''X'' \<and> mode g' \<noteq> mode (gpsData_zero\<lparr>mode := CHR ''A''\<rparr>))
   \<and> split_fields (cstr ''GPRMC,,A,4807.038,N,01131.000,E,022.4,084.4,230394'') ! 2 = ''A''
   \<and> (case parseRMC (replicate 7 NUL) gpsData_zero
          ''GPRMC,,A,4807.038,N,01131.000,E,022.4,084.4,230394'' of
      Inl e \<Rightarrow> False
    | Inr (g', out) \<Rightarrow> mode g' = CHR ''4'' \<and> mode g' \<noteq> CHR ''A'')"
  by code_simp

section \<open>The speed field\<close>

text \<open>
  Claim C5, at two sentences with an empty speed field (index 7). The branch
  \<^verbatim>\<open>gpsData.speed = 0.0\<close> needs an empty token, which \<^verbatim>\<open>strtok\<close> never
  returns. With a course behind the empty speed field, the course \<open>084.4\<close> is the eighth
  token and is converted as the speed. With the sentence ending at the empty speed field
  there is no eighth token, and the speed keeps its previous value.
\<close>

theorem parseRMC_empty_speed_field:
  "split_fields (cstr ''GPRMC,123519,A,4807.038,N,01131.000,E,,084.4,230394,003.1,W'') ! 7 = []
   \<and> (case parseRMC tempTime0 gpsData_zero
             ''GPRMC,123519,A,4807.038,N,01131.000,E,,084.4,230394,003.1,W'' of
         Inl e \<Rightarrow> False
       | Inr (g, out) \<Rightarrow> speed g = Knots_times_1852 ''084.4'' \<and> speed g \<noteq> Speed_zero)
   \<and> split_fields (cstr ''GPRMC,123519,A,4807.038,N,01131.000,E,'') ! 7 = []
   \<and> (case parseRMC tempTime0 (gpsData_zero\<lparr>speed := Knots_times_1852 ''022.4''\<rparr>)
             ''GPRMC,123519,A,4807.038,N,01131.000,E,'' of
         Inl e \<Rightarrow> False
       | Inr (g, out) \<Rightarrow> speed g = Knots_times_1852 ''022.4'' \<and> speed g \<noteq> Speed_zero)"
proof (intro conjI)
  show "split_fields (cstr ''GPRMC,123519,A,4807.038,N,01131.000,E,,084.4,230394,003.1,W'') ! 7 = []"
    by code_simp
  show "(case parseRMC tempTime0 gpsData_zero
             ''GPRMC,123519,A,4807.038,N,01131.000,E,,084.4,230394,003.1,W'' of
         Inl e \<Rightarrow> False
       | Inr (g, out) \<Rightarrow> speed g = Knots_times_1852 ''084.4'' \<and> speed g \<noteq> Speed_zero)"
    by (simp add: parseRMC_def eval_parse_loop)
  show "split_fields (cstr ''GPRMC,123519,A,4807.038,N,01131.000,E,'') ! 7 = []"
    by code_simp
  show "(case parseRMC tempTime0 (gpsData_zero\<lparr>speed := Knots_times_1852 ''022.4''\<rparr>)
             ''GPRMC,123519,A,4807.038,N,01131.000,E,'' of
         Inl e \<Rightarrow> False
       | Inr (g, out) \<Rightarrow> speed g = Knots_times_1852 ''022.4'' \<and> speed g \<noteq> Speed_zero)"
    by (simp add: parseRMC_def eval_parse_loop)
qed

section \<open>dataReady and the date field\<close>

text \<open>
  Claim C6, amended. For every decode attempt, \<^verbatim>\<open>parseRMC\<close> clears
  \<^verbatim>\<open>dataReady\<close> first: the value it had before does not matter. For a sentence with
  no empty field among the fields 0 to 9, the loop leaves \<^verbatim>\<open>dataReady\<close> true
  exactly when the date field (index 9) is present with at least 6 characters, and so
  does every decode that returns. For such a sentence whose date field is absent or has
  fewer than 6 characters, the decode returns with \<^verbatim>\<open>dataReady\<close> false, the date and
  the local time of the record untouched, and never the outcome \<open>Updated\<close>: the outcome
  is \<open>SignalLost\<close> when \<^verbatim>\<open>mode\<close> ends as \<open>V\<close> and \<open>Malformed\<close> otherwise.
\<close>

theorem parseRMC_dataReady_from_date:
  "parseRMC tempTime0 (gpsData\<lparr>dataReady := b\<rparr>) sentence =
     parseRMC tempTime0 (gpsData\<lparr>dataReady := False\<rparr>) sentence
   \<and> ((\<forall>f \<in> set (take 10 (split_fields (cstr sentence))). f \<noteq> []) \<longrightarrow>
        dataReady (snd (parse_loop (strtok (cstr sentence)) 0
                          (tempTime0, gpsData\<lparr>dataReady := False\<rparr>))) =
          (9 < length (split_fields (cstr sentence)) \<and>
           6 \<le> length (split_fields (cstr sentence) ! 9))
        \<and> (\<forall>g' out. parseRMC tempTime0 gpsData sentence = Inr (g', out) \<longrightarrow>
              dataReady g' = (9 < length (split_fields (cstr sentence)) \<and>
                              6 \<le> length (split_fields (cstr sentence) ! 9)))
        \<and> (\<not> (9 < length (split_fields (cstr sentence)) \<and>
                6 \<le> length (split_fields (cstr sentence) ! 9)) \<longrightarrow>
             (\<exists>g. parseRMC tempTime0 gpsData sentence =
                    Inr (g, if mode g = CHR ''V'' then SignalLost else Malformed)
                  \<and> \<not> dataReady g \<and> date g = date gpsData \<and> time g = time gpsData)))"
proof (intro conjI impI)
  let ?T = "tokens (cstr sentence)" and ?F = "split_fields (cstr sentence)"
  let ?st = "parse_tokens ?T 0 (tempTime0, gpsData\<lparr>dataReady := False\<rparr>)"
  show "parseRMC tempTime0 (gpsData\<lparr>dataReady := b\<rparr>) sentence =
           parseRMC tempTime0 (gpsData\<lparr>dataReady := False\<rparr>) sentence"
    by (simp add: parseRMC_def)
  assume ne: "\<forall>f \<in> set (take 10 ?F). f \<noteq> []"
  from ne have l: "(9 < length ?T) = (9 < length ?F)"
    by (rule tokens_agree) simp
  have e: "9 < length ?F \<Longrightarrow> ?T ! 9 = ?F ! 9"
    using ne by (rule tokens_agree) simp
  have d: "dataReady (snd ?st) = (9 < length ?F \<and> 6 \<le> length (?F ! 9))"
    using l e by (auto simp add: parse_tokens_dataReady)
  then show "dataReady (snd (parse_loop (strtok (cstr sentence)) 0
                          (tempTime0, gpsData\<lparr>dataReady := False\<rparr>))) =
          (9 < length ?F \<and> 6 \<le> length (?F ! 9))"
    unfolding parse_loop_strtok .
  have r: "\<forall>g' out. parseRMC tempTime0 gpsData sentence = Inr (g', out) \<longrightarrow>
        dataReady g' = dataReady (snd ?st)"
    by (auto simp add: parseRMC_tokens Let_def split: if_splits sum.splits)
  with d show "\<forall>g' out. parseRMC tempTime0 gpsData sentence = Inr (g', out) \<longrightarrow>
              dataReady g' = (9 < length ?F \<and> 6 \<le> length (?F ! 9))"
    by simp
  assume n: "\<not> (9 < length ?F \<and> 6 \<le> length (?F ! 9))"
  with d have nd: "\<not> dataReady (snd ?st)" by simp
  then have p: "parseRMC tempTime0 gpsData sentence =
      Inr (snd ?st, if mode (snd ?st) = CHR ''V'' then SignalLost else Malformed)"
    by (simp add: parseRMC_tokens Let_def)
  have t: "time (snd ?st) = time gpsData" by (simp add: parse_tokens_time)
  from n l e have dt: "date (snd ?st) = date gpsData"
    by (auto simp add: parse_tokens_date)
  from p nd t dt
  show "\<exists>g. parseRMC tempTime0 gpsData sentence =
                 Inr (g, if mode g = CHR ''V'' then SignalLost else Malformed)
               \<and> \<not> dataReady g \<and> date g = date gpsData \<and> time g = time gpsData"
    by blast
qed

text \<open>A sentence with status A whose date field has four characters.\<close>

theorem parseRMC_dataReady_from_date_witness:
  "take 10 (split_fields (cstr ''GPRMC,123519,A,4807.038,N,01131.000,E,022.4,084.4,2303'')) =
     [''GPRMC'', ''123519'', ''A'', ''4807.038'', ''N'', ''01131.000'', ''E'', ''022.4'', ''084.4'', ''2303'']
   \<and> parseRMC (replicate 7 NUL) (gpsData_zero\<lparr>dataReady := True\<rparr>)
         ''GPRMC,123519,A,4807.038,N,01131.000,E,022.4,084.4,2303'' =
       parseRMC (replicate 7 NUL) (gpsData_zero\<lparr>dataReady := False\<rparr>)
         ''GPRMC,123519,A,4807.038,N,01131.000,E,022.4,084.4,2303''
   \<and> \<not> dataReady (snd (parse_loop
          (strtok (cstr ''GPRMC,123519,A,4807.038,N,01131.000,E,022.4,084.4,2303'')) 0
          (replicate 7 NUL, gpsData_zero\<lparr>dataReady := False\<rparr>)))
   \<and> (\<exists>g. parseRMC (replicate 7 NUL) gpsData_zero
              ''GPRMC,123519,A,4807.038,N,01131.000,E,022.4,084.4,2303'' =
              Inr (g, if mode g = CHR ''V'' then SignalLost else Malformed)
            \<and> \<not> dataReady g \<and> date g = date gpsData_zero \<and> time g = time gpsData_zero)
   \<and> (case parseRMC (replicate 7 NUL) gpsData_zero
              ''GPRMC,123519,A,4807.038,N,01131.000,E,022.4,084.4,2303'' of
         Inl e \<Rightarrow> False | Inr (g, out) \<Rightarrow> out = Malformed \<and> mode g = CHR ''A'' \<and> \<not> dataReady g)"
proof -
  let ?s = "''GPRMC,123519,A,4807.038,N,01131.000,E,022.4,084.4,2303''"
  have h1: "take 10 (split_fields (cstr ?s)) =
     [''GPRMC'', ''123519'', ''A'', ''4807.038'', ''N'', ''01131.000'', ''E'', ''022.4'', ''084.4'', ''2303'']"
    by (simp add: cstr_def)
  then have h2: "\<forall>f \<in> set (take 10 (split_fields (cstr ?s))). f \<noteq> []"
    by simp
  have h3: "\<not> (9 < length (split_fields (cstr ?s)) \<and> 6 \<le> length (split_fields (cstr ?s) ! 9))"
    by code_simp
  have h4: "(case parseRMC (replicate 7 NUL) gpsData_zero ?s of
         Inl e \<Rightarrow> False | Inr (g, out) \<Rightarrow> out = Malformed \<and> mode g = CHR ''A'' \<and> \<not> dataReady g)"
    by code_simp
  note t = parseRMC_dataReady_from_date [of "replicate 7 NUL" True gpsData_zero ?s]
  from t have a: "parseRMC (replicate 7 NUL) (gpsData_zero\<lparr>dataReady := True\<rparr>) ?s =
       parseRMC (replicate 7 NUL) (gpsData_zero\<lparr>dataReady := False\<rparr>) ?s"
    by (rule conjunct1)
  from t h2 h3 have c: "\<not> dataReady (snd (parse_loop (strtok (cstr ?s)) 0
          (replicate 7 NUL, gpsData_zero\<lparr>dataReady := False\<rparr>)))"
    by blast
  from t h2 h3 have b: "\<exists>g. parseRMC (replicate 7 NUL) gpsData_zero ?s =
              Inr (g, if mode g = CHR ''V'' then SignalLost else Malformed)
            \<and> \<not> dataReady g \<and> date g = date gpsData_zero \<and> time g = time gpsData_zero"
    by blast
  from h1 a c b h4 show ?thesis by (intro conjI)
qed

text \<open>
  The same sentence with status V: the date field has four characters and the outcome is
  \<open>SignalLost\<close>, not \<open>Malformed\<close>. And a sentence with an empty date field followed by
  a longer field: \<^verbatim>\<open>strtok\<close> skips the empty field, the tenth token is
  \<open>003.1234\<close>, and the decode ends \<open>Updated\<close> with that token cut to six characters
  as the date.
\<close>

theorem parseRMC_short_date_counterexample:
  "length (split_fields (cstr ''GPRMC,123519,V,4807.038,N,01131.000,E,022.4,084.4,2303'') ! 9) = 4
   \<and> (case parseRMC (replicate 7 NUL) gpsData_zero
             ''GPRMC,123519,V,4807.038,N,01131.000,E,022.4,084.4,2303'' of
         Inl e \<Rightarrow> False
       | Inr (g, out) \<Rightarrow> \<not> dataReady g \<and> out = SignalLost \<and> out \<noteq> Malformed)
   \<and> split_fields (cstr ''GPRMC,123519,A,4807.038,N,01131.000,E,022.4,084.4,,003.1234,W'') ! 9 = []
   \<and> (case parseRMC (replicate 7 NUL) gpsData_zero
             ''GPRMC,123519,A,4807.038,N,01131.000,E,022.4,084.4,,003.1234,W'' of
         Inl e \<Rightarrow> False
       | Inr (g, out) \<Rightarrow> dataReady g \<and> out = Updated \<and> cstr (date g) = ''003.12'')"
  by code_simp

section \<open>Status V\<close>

text \<open>
  When the token that the loop takes as status, the third token that
  \<^verbatim>\<open>strtok\<close> returns, begins with \<open>V\<close>, \<^verbatim>\<open>parseRMC\<close> ends with
  \<^verbatim>\<open>mode == 'V'\<close> and prints \<^verbatim>\<open>gps signal lost\<close>, whatever the other tokens,
  the previous record and the bytes of \<^verbatim>\<open>tempTime\<close> are, and
  \<^verbatim>\<open>gpsData.time\<close> keeps its bytes.
\<close>

lemma parseRMC_status_token_V:
  assumes "2 < length (tokens (cstr sentence))"
    and "tokens (cstr sentence) ! 2 ! 0 = CHR ''V''"
  shows "\<exists>g'. parseRMC tempTime0 gpsData sentence = Inr (g', SignalLost)
              \<and> mode g' = CHR ''V'' \<and> time g' = time gpsData"
proof -
  let ?st = "parse_tokens (tokens (cstr sentence)) 0 (tempTime0, gpsData\<lparr>dataReady := False\<rparr>)"
  from assms(1) have "tokens (cstr sentence) ! 2 \<in> set (tokens (cstr sentence))" by simp
  then have "tokens (cstr sentence) ! 2 \<noteq> []" by (rule tokens_nonempty)
  with assms have m: "mode (snd ?st) = CHR ''V''" by (simp add: parse_tokens_mode)
  have t: "time (snd ?st) = time gpsData" by (simp add: parse_tokens_time)
  from m have "parseRMC tempTime0 gpsData sentence = Inr (snd ?st, SignalLost)"
    by (simp add: parseRMC_tokens Let_def)
  with m t show ?thesis by blast
qed

text \<open>
  Claim C7, at two sentences whose status field (index 2) is \<open>V\<close> behind an empty
  time field. \<^verbatim>\<open>strtok\<close> skips the empty field, so the \<open>V\<close> is the second token
  and is read as the time. In the sentence of a receiver without a fix the third token
  is the last field, \<open>N*53\<close>: \<^verbatim>\<open>mode\<close> becomes \<open>N\<close> and nothing is printed, so
  the outcome is \<open>Malformed\<close>. In the second sentence the third token is \<open>A\<close> and
  the tenth has eight characters: \<^verbatim>\<open>adjustTimeZone\<close> is called on the bytes of
  \<^verbatim>\<open>tempTime\<close>, and where it returns its result is written to
  \<^verbatim>\<open>gpsData.time\<close> and the outcome is \<open>Updated\<close>; from the entry bytes
  \<open>000000\<close> the local time \<open>053000\<close> is written.
\<close>

theorem parseRMC_status_V_not_SignalLost:
  "split_fields (cstr ''GPRMC,,V,,,,,,,,,,N*53'') ! 2 = ''V''
   \<and> parseRMC tempTime0 (gpsData_zero\<lparr>mode := CHR ''A''\<rparr>) ''GPRMC,,V,,,,,,,,,,N*53'' =
       Inr (gpsData_zero\<lparr>mode := CHR ''N''\<rparr>, Malformed)
   \<and> split_fields (cstr ''GPRMC,,V,A,N,01131.000,E,022.4,084.4,230394,003.1234,W'') ! 2 = ''V''
   \<and> (case parseRMC tempTime0 gpsData ''GPRMC,,V,A,N,01131.000,E,022.4,084.4,230394,003.1234,W'' of
         Inl e \<Rightarrow> adjustTimeZone tempTime0 (time gpsData) = Inl e
       | Inr (g', out) \<Rightarrow>
           out = Updated \<and> mode g' = CHR ''A'' \<and>
           adjustTimeZone tempTime0 (time gpsData) = Inr (time g'))
   \<and> (case parseRMC (''000000'' @ [NUL]) gpsData_zero
             ''GPRMC,,V,A,N,01131.000,E,022.4,084.4,230394,003.1234,W'' of
         Inl e \<Rightarrow> False
       | Inr (g', out) \<Rightarrow> out = Updated \<and> time g' = ''053000'' @ [NUL])"
proof (intro conjI)
  let ?s = "''GPRMC,,V,A,N,01131.000,E,022.4,084.4,230394,003.1234,W''"
  show "split_fields (cstr ''GPRMC,,V,,,,,,,,,,N*53'') ! 2 = ''V''"
    by code_simp
  show "parseRMC tempTime0 (gpsData_zero\<lparr>mode := CHR ''A''\<rparr>) ''GPRMC,,V,,,,,,,,,,N*53'' =
       Inr (gpsData_zero\<lparr>mode := CHR ''N''\<rparr>, Malformed)"
    by (simp add: parseRMC_def eval_parse_loop)
  show "split_fields (cstr ?s) ! 2 = ''V''"
    by code_simp
  have l: "parse_loop (strtok (cstr ?s)) 0 (tempTime0, gpsData\<lparr>dataReady := False\<rparr>) =
      (tempTime0,
       gpsData\<lparr>date := (strncpy (date gpsData) ''003.1234'' 6)[6 := NUL],
               lat := (strncpy (lat gpsData) ''N'' 10)[10 := NUL], ns := CHR ''0'',
               lon := (strncpy (lon gpsData) ''E'' 10)[10 := NUL], ew := CHR ''0'',
               speed := Knots_times_1852 ''084.4'', mode := CHR ''A'', dataReady := True\<rparr>)"
    by (simp add: cstr_def strtok_def parse_field_def)
  show "(case parseRMC tempTime0 gpsData ?s of
         Inl e \<Rightarrow> adjustTimeZone tempTime0 (time gpsData) = Inl e
       | Inr (g', out) \<Rightarrow>
           out = Updated \<and> mode g' = CHR ''A'' \<and>
           adjustTimeZone tempTime0 (time gpsData) = Inr (time g'))"
    unfolding parseRMC_def l Let_def fst_conv snd_conv
    by (simp split: sum.splits)
  show "(case parseRMC (''000000'' @ [NUL]) gpsData_zero ?s of
         Inl e \<Rightarrow> False
       | Inr (g', out) \<Rightarrow> out = Updated \<and> time g' = ''053000'' @ [NUL])"
    by code_simp
qed

section \<open>A short time field\<close>

text \<open>
  Claim C9. The sentence below has a time field of four characters, status \<open>A\<close> and a
  date of six characters. The loop does not write \<^verbatim>\<open>tempTime\<close>, the decode goes
  on to \<^verbatim>\<open>adjustTimeZone(tempTime, gpsData.time)\<close>, and its result is the
  conversion of the bytes that \<^verbatim>\<open>tempTime\<close> held on entry, whatever they are:
  \<open>053000\<close> for the bytes \<open>000000\<close>, \<open>052959\<close> for the bytes \<open>235959\<close>. The local
  time of the record is not a function of the sentence and the previous record.
\<close>

theorem parseRMC_uses_uninitialised_tempTime:
  "length (split_fields (cstr ''GPRMC,1235,A,4807.038,N,01131.000,E,022.4,084.4,230394'') ! 1) = 4
   \<and> parseRMC tempTime0 gpsData ''GPRMC,1235,A,4807.038,N,01131.000,E,022.4,084.4,230394'' =
      (case adjustTimeZone tempTime0 (time gpsData) of
         Inl e \<Rightarrow> Inl e
       | Inr t \<Rightarrow>
           Inr (gpsData\<lparr>date := (strncpy (date gpsData) ''230394'' 6)[6 := NUL], time := t,
                  lat := (strncpy (lat gpsData) ''4807.038'' 10)[10 := NUL], ns := CHR ''N'',
                  lon := (strncpy (lon gpsData) ''01131.000'' 10)[10 := NUL], ew := CHR ''E'',
                  speed := Knots_times_1852 ''022.4'', mode := CHR ''A'', dataReady := True\<rparr>,
                Updated))
   \<and> adjustTimeZone (''000000'' @ [NUL]) (replicate 7 NUL) = Inr (''053000'' @ [NUL])
   \<and> adjustTimeZone (''235959'' @ [NUL]) (replicate 7 NUL) = Inr (''052959'' @ [NUL])"
proof (intro conjI)
  show "length (split_fields (cstr ''GPRMC,1235,A,4807.038,N,01131.000,E,022.4,084.4,230394'') ! 1) = 4"
    by code_simp
  show "parseRMC tempTime0 gpsData ''GPRMC,1235,A,4807.038,N,01131.000,E,022.4,084.4,230394'' =
      (case adjustTimeZone tempTime0 (time gpsData) of
         Inl e \<Rightarrow> Inl e
       | Inr t \<Rightarrow>
           Inr (gpsData\<lparr>date := (strncpy (date gpsData) ''230394'' 6)[6 := NUL], time := t,
                  lat := (strncpy (lat gpsData) ''4807.038'' 10)[10 := NUL], ns := CHR ''N'',
                  lon := (strncpy (lon gpsData) ''01131.000'' 10)[10 := NUL], ew := CHR ''E'',
                  speed := Knots_times_1852 ''022.4'', mode := CHR ''A'', dataReady := True\<rparr>,
                Updated))"
    by (simp add: parseRMC_def cstr_def strtok_def parse_field_def split: sum.splits)
  show "adjustTimeZone (''000000'' @ [NUL]) (replicate 7 NUL) = Inr (''053000'' @ [NUL])"
    by code_simp
  show "adjustTimeZone (''235959'' @ [NUL]) (replicate 7 NUL) = Inr (''052959'' @ [NUL])"
    by code_simp
qed

section \<open>The width of the character arrays\<close>

text \<open>
  Every copy in the loop keeps the arrays terminated, and so does
  \<^verbatim>\<open>adjustTimeZone\<close> whenever \<^verbatim>\<open>sprintf\<close> stays within
  \<^verbatim>\<open>gpsData.time\<close>: a decode that returns keeps the four arrays within their
  widths.
\<close>

lemma cstr_short: "i < length a \<Longrightarrow> a ! i = NUL \<Longrightarrow> length (cstr a) \<le> i"
proof (induction a arbitrary: i)
  case Nil
  then show ?case by simp
next
  case (Cons c cs)
  then show ?case by (cases i) (simp_all add: cstr_def)
qed

lemma terminated_zero: "0 < w \<Longrightarrow> terminated w (replicate w NUL)"
  by (cases w) (simp_all add: terminated_def cstr_def)

lemma length_strncpy: "n \<le> length dst \<Longrightarrow> length (strncpy dst src n) = length dst"
  by (simp add: strncpy_def)

lemma terminated_copy:
  assumes "length dst = Suc n"
  shows "terminated (Suc n) ((strncpy dst src n)[n := NUL])"
proof -
  from assms have l: "length ((strncpy dst src n)[n := NUL]) = Suc n"
    by (simp add: length_strncpy)
  then have "(strncpy dst src n)[n := NUL] ! n = NUL" by simp
  with l have "length (cstr ((strncpy dst src n)[n := NUL])) \<le> n"
    by (intro cstr_short) simp_all
  with l show ?thesis by (simp add: terminated_def)
qed

lemma terminated_sprintf:
  assumes "sprintf_02d3 dst a b c = Inr r"
  shows "terminated (length dst) r"
proof -
  let ?s = "fmt_02d a @ fmt_02d b @ fmt_02d c"
  from assms have le: "length (?s @ [NUL]) \<le> length dst"
    and r: "r = (?s @ [NUL]) @ drop (length (?s @ [NUL])) dst"
    by (auto simp add: sprintf_02d3_def Let_def split: if_splits)
  from le r have l: "length r = length dst" by simp
  from r have "r ! length ?s = NUL" by (simp add: nth_append)
  moreover from le l have "length ?s < length r" by simp
  ultimately have "length (cstr r) \<le> length ?s" by (intro cstr_short)
  with le l show ?thesis by (simp add: terminated_def)
qed

lemma parse_field_widths:
  assumes "widths_ok (snd st)"
  shows "widths_ok (snd (parse_field fc t st))"
proof -
  from assms have d: "length (date (snd st)) = Suc 6" and la: "length (lat (snd st)) = Suc 10"
    and lo: "length (lon (snd st)) = Suc 10"
    by (simp_all add: widths_ok_def terminated_def)
  note c = terminated_copy [OF d, of t] terminated_copy [OF la, of t] terminated_copy [OF lo, of t]
  from assms c show ?thesis
    by (simp add: parse_field_def Let_def widths_ok_def)
qed

lemma parse_tokens_widths:
  "widths_ok (snd st) \<Longrightarrow> widths_ok (snd (parse_tokens ts fc st))"
  by (induction ts arbitrary: fc st) (simp_all add: parse_field_widths)

lemma widths_ok_zero: "widths_ok gpsData_zero"
  by (simp add: widths_ok_def gpsData_zero_def terminated_zero)

lemma parseRMC_widths:
  assumes "widths_ok gpsData" and "parseRMC tempTime0 gpsData sentence = Inr (g', out)"
  shows "widths_ok g'"
proof -
  let ?st = "parse_tokens (tokens (cstr sentence)) 0 (tempTime0, gpsData\<lparr>dataReady := False\<rparr>)"
  from assms(1) have "widths_ok (snd (tempTime0, gpsData\<lparr>dataReady := False\<rparr>))"
    by (simp add: widths_ok_def)
  then have w: "widths_ok (snd ?st)" by (rule parse_tokens_widths)
  show ?thesis
  proof (cases "dataReady (snd ?st) \<and> mode (snd ?st) = CHR ''A''")
    case True
    with assms(2) obtain t where a: "adjustTimeZone (fst ?st) (time (snd ?st)) = Inr t"
      and g: "g' = (snd ?st)\<lparr>time := t\<rparr>"
      by (auto simp add: parseRMC_tokens Let_def split: sum.splits)
    from a have "terminated (length (time (snd ?st))) t"
      unfolding adjustTimeZone_def Let_def by (rule terminated_sprintf)
    with w g show ?thesis by (simp add: widths_ok_def terminated_def)
  next
    case False
    with assms(2) have "g' = snd ?st"
      by (auto simp add: parseRMC_tokens Let_def split: if_splits)
    with w show ?thesis by simp
  qed
qed

text \<open>
  A time token of at least six characters, the first six of them decimal digits, is
  copied to \<^verbatim>\<open>tempTime\<close> and converts to six characters: the decode returns.
\<close>

lemma parse_field_tempTime:
  "fst (parse_field fc t st) =
     (if fc = 1 \<and> 6 \<le> length t then (strncpy (fst st) t 6)[6 := NUL] else fst st)"
  by (simp add: parse_field_def Let_def)

lemma parse_tokens_tempTime:
  "fst (parse_tokens ts fc st) =
     (if fc \<le> 1 \<and> 1 - fc < length ts \<and> 6 \<le> length (ts ! (1 - fc))
      then (strncpy (fst st) (ts ! (1 - fc)) 6)[6 := NUL]
      else fst st)"
proof (induction ts arbitrary: fc st)
  case Nil
  then show ?case by simp
next
  case (Cons t ts)
  show ?case
  proof (cases "fc < 1")
    case True
    then have "fc = 0" by simp
    then show ?thesis by (simp add: Cons.IH parse_field_tempTime)
  next
    case False
    then show ?thesis by (simp add: Cons.IH parse_field_tempTime)
  qed
qed

lemma strncpy_time: "6 \<le> length t \<Longrightarrow> (strncpy d t 6)[6 := NUL] = take 6 t @ (drop 6 d)[0 := NUL]"
  by (simp add: strncpy_def list_update_append)

lemma digit_pair:
  assumes "c1 \<in> set ''0123456789''" and "c2 \<in> set ''0123456789''"
  shows "\<exists>n<100. [c1, c2] = two_digits n"
proof -
  from assms(1) obtain k1 where "k1 < length ''0123456789''" and "''0123456789'' ! k1 = c1"
    unfolding in_set_conv_nth by blast
  then have k1: "k1 < 10" "c1 = digit_char k1" by (simp_all add: digit_char_def)
  from assms(2) obtain k2 where "k2 < length ''0123456789''" and "''0123456789'' ! k2 = c2"
    unfolding in_set_conv_nth by blast
  then have k2: "k2 < 10" "c2 = digit_char k2" by (simp_all add: digit_char_def)
  from k1 k2 have "10 * k1 + k2 < 100" and "[c1, c2] = two_digits (10 * k1 + k2)"
    by (simp_all add: two_digits_def)
  then show ?thesis by blast
qed

lemma six_digits:
  assumes "length xs = 6" and "\<forall>c \<in> set xs. c \<in> set ''0123456789''"
  shows "\<exists>h m s. h < 100 \<and> m < 100 \<and> s < 100 \<and> xs = two_digits h @ two_digits m @ two_digits s"
proof -
  from assms(1) obtain a b c d e f where xs: "xs = [a, b, c, d, e, f]"
    by (auto simp add: length_Suc_conv eval_nat_numeral)
  with assms(2) have "a \<in> set ''0123456789''" "b \<in> set ''0123456789''"
    "c \<in> set ''0123456789''" "d \<in> set ''0123456789''"
    "e \<in> set ''0123456789''" "f \<in> set ''0123456789''"
    by simp_all
  then obtain h m s where "h < 100" "[a, b] = two_digits h" "m < 100" "[c, d] = two_digits m"
    "s < 100" "[e, f] = two_digits s"
    using digit_pair by metis
  with xs have "xs = two_digits h @ two_digits m @ two_digits s"
    by (metis append_Cons append_Nil)
  with \<open>h < 100\<close> \<open>m < 100\<close> \<open>s < 100\<close> show ?thesis by blast
qed

lemma parseRMC_digit_time_returns:
  assumes "1 < length (tokens (cstr sentence))"
    and "6 \<le> length (tokens (cstr sentence) ! 1)"
    and "\<forall>c \<in> set (take 6 (tokens (cstr sentence) ! 1)). c \<in> set ''0123456789''"
    and "length (time gpsData) = 7"
  shows "\<exists>g' out. parseRMC tempTime0 gpsData sentence = Inr (g', out)"
proof -
  let ?st = "parse_tokens (tokens (cstr sentence)) 0 (tempTime0, gpsData\<lparr>dataReady := False\<rparr>)"
  let ?t = "tokens (cstr sentence) ! 1"
  from assms(1,2) have "fst ?st = (strncpy tempTime0 ?t 6)[6 := NUL]"
    by (simp add: parse_tokens_tempTime)
  with assms(2) have f: "fst ?st = take 6 ?t @ (drop 6 tempTime0)[0 := NUL]"
    by (simp add: strncpy_time)
  from assms(2) have "length (take 6 ?t) = 6" by simp
  with assms(3) obtain h m s where "h < 100" "m < 100" "s < 100"
    and d: "take 6 ?t = two_digits h @ two_digits m @ two_digits s"
    using six_digits by blast
  moreover have "length (time (snd ?st)) = 7"
    using assms(4) by (simp add: parse_tokens_time)
  ultimately have "adjustTimeZone ((two_digits h @ two_digits m @ two_digits s) @ (drop 6 tempTime0)[0 := NUL])
        (time (snd ?st)) =
      Inr (two_digits ((h + 5 + (m + 30) div 60) mod 24) @ two_digits ((m + 30) mod 60) @
              two_digits s @ [NUL])"
    unfolding append_assoc by (intro adjustTimeZone_digits)
  with f d have "\<exists>t. adjustTimeZone (fst ?st) (time (snd ?st)) = Inr t" by simp
  then show ?thesis
    by (auto simp add: parseRMC_tokens Let_def)
qed

text \<open>
  Claim C10, at a sentence whose time field \<open>1235\<close> has decimal digits only. The field is
  too short to be copied, so \<^verbatim>\<open>tempTime\<close> keeps the bytes of the stack. With
  seven zero bytes there, \<^verbatim>\<open>adjustTimeZone\<close> computes hours -3, minutes -18 and
  seconds -528, and \<^verbatim>\<open>sprintf\<close> writes nine characters and a NUL into the seven
  bytes of \<^verbatim>\<open>gpsData.time\<close>. With six colons (the byte after \<open>9\<close>) there, it
  computes hours 21, minutes 20 and seconds 110, and writes seven characters and a NUL.
\<close>

theorem parseRMC_time_overflow:
  "split_fields (cstr ''GPRMC,1235,A,4807.038,N,01131.000,E,022.4,084.4,230394'') ! 1 = ''1235''
   \<and> length (time gpsData_zero) = 7
   \<and> fmt_02d (- 3) @ fmt_02d (- 18) @ fmt_02d (- 528) = ''-3-18-528''
   \<and> parseRMC (replicate 7 NUL) gpsData_zero
        ''GPRMC,1235,A,4807.038,N,01131.000,E,022.4,084.4,230394'' = Inl Buffer_overflow
   \<and> fmt_02d 21 @ fmt_02d 20 @ fmt_02d 110 = ''2120110''
   \<and> parseRMC (''::::::'' @ [NUL]) gpsData_zero
        ''GPRMC,1235,A,4807.038,N,01131.000,E,022.4,084.4,230394'' = Inl Buffer_overflow"
proof (intro conjI)
  let ?s = "''GPRMC,1235,A,4807.038,N,01131.000,E,022.4,084.4,230394''"
  let ?g = "gpsData_zero\<lparr>date := ''230394'' @ [NUL], lat := ''4807.038'' @ [NUL, NUL, NUL],
              ns := CHR ''N'', lon := ''01131.000'' @ [NUL, NUL], ew := CHR ''E'',
              speed := Knots_times_1852 ''022.4'', mode := CHR ''A'', dataReady := True\<rparr>"
  show "split_fields (cstr ?s) ! 1 = ''1235''"
    by code_simp
  show "length (time gpsData_zero) = 7"
    by (simp add: gpsData_zero_def)
  show "fmt_02d (- 3) @ fmt_02d (- 18) @ fmt_02d (- 528) = ''-3-18-528''"
    by (simp add: fmt_02d_def dec_digits.simps digit_char_def)
  show "fmt_02d 21 @ fmt_02d 20 @ fmt_02d 110 = ''2120110''"
    by (simp add: fmt_02d_def dec_digits.simps digit_char_def)
  have l0: "parse_loop (strtok (cstr ?s)) 0 (replicate 7 NUL, gpsData_zero\<lparr>dataReady := False\<rparr>) =
      (replicate 7 NUL, ?g)"
    by (simp add: eval_parse_loop)
  have a0: "adjustTimeZone (replicate 7 NUL) (replicate 7 NUL) = Inl Buffer_overflow"
    by (simp add: eval_adjustTimeZone replicate_numeral)
  show "parseRMC (replicate 7 NUL) gpsData_zero ?s = Inl Buffer_overflow"
    unfolding parseRMC_def l0 Let_def fst_conv snd_conv
    by (simp only: GpsData.simps gpsData_zero_def if_True simp_thms a0 sum.case)
  have l: "parse_loop (strtok (cstr ?s)) 0 (''::::::'' @ [NUL], gpsData_zero\<lparr>dataReady := False\<rparr>) =
      (''::::::'' @ [NUL], ?g)"
    by (simp add: eval_parse_loop)
  have a: "adjustTimeZone (''::::::'' @ [NUL]) (replicate 7 NUL) = Inl Buffer_overflow"
    by (simp add: eval_adjustTimeZone)
  show "parseRMC (''::::::'' @ [NUL]) gpsData_zero ?s = Inl Buffer_overflow"
    unfolding parseRMC_def l Let_def fst_conv snd_conv
    by (simp only: GpsData.simps gpsData_zero_def if_True simp_thms a sum.case)
qed

section \<open>Properties of the sentence buffer\<close>

lemma feed_all_snoc: "feed_all a (bs @ [c]) = fst (feed c (feed_all a bs))"
  by (induction bs arbitrary: a) simp_all

lemma pending_snoc: "pending (bs @ [c]) = (if is_boundary c then [] else pending bs @ [c])"
  by (simp add: pending_def)

lemma holds_init: "holds assembler_init []"
  by (simp add: holds_def assembler_init_def)

lemma holds_feed:
  assumes "holds a p"
  shows "holds (fst (feed c a)) (if is_boundary c then [] else p @ [c])"
proof (cases "is_boundary c")
  case True
  with assms show ?thesis
    by (auto simp add: holds_def feed_def is_boundary_def Let_def)
next
  case False
  then have c: "c \<noteq> CHR ''$''" "c \<noteq> LF" "c \<noteq> CR" by (simp_all add: is_boundary_def)
  from assms have len: "length (buffer a) = 128" and n: "bufferIndex a = length (take 127 p)"
    and tk: "take (bufferIndex a) (buffer a) = take 127 p"
    unfolding holds_def by blast+
  show ?thesis
  proof (cases "bufferIndex a < 127")
    case True
    with n have lp: "length p < 127" and np: "bufferIndex a = length p" by auto
    from True len have "take (Suc (bufferIndex a)) ((buffer a)[bufferIndex a := c]) =
        take (bufferIndex a) (buffer a) @ [c]"
      by (simp add: take_Suc_conv_app_nth)
    with tk lp have "take (Suc (bufferIndex a)) ((buffer a)[bufferIndex a := c]) = p @ [c]"
      by simp
    with True False c len lp np show ?thesis
      by (simp add: holds_def feed_def)
  next
    case full: False
    with n have l: "127 \<le> length p" by auto
    from full c have fe: "fst (feed c a) = a" by (simp add: feed_def)
    from l have e: "take 127 (p @ [c]) = take 127 p" by simp
    have "holds a (p @ [c])" unfolding holds_def e using len n tk by blast
    with False fe show ?thesis by simp
  
  qed
qed

lemma holds_feed_all: "holds (feed_all assembler_init bs) (pending bs)"
proof (induction bs rule: rev_induct)
  case Nil
  then show ?case by (simp add: holds_init pending_def)
next
  case (snoc c bs)
  then show ?case unfolding feed_all_snoc pending_snoc by (rule holds_feed)
qed

lemma takeWhile_stop: "\<not> P y \<Longrightarrow> takeWhile P (xs @ y # ys) = takeWhile P xs"
  by (induction xs) simp_all

lemma cstr_update: "n < length xs \<Longrightarrow> cstr (xs[n := NUL]) = cstr (take n xs)"
proof -
  assume n: "n < length xs"
  then have "xs[n := NUL] = take n xs @ NUL # drop (Suc n) xs"
    by (rule upd_conv_take_nth_drop)
  then show ?thesis by (simp add: cstr_def takeWhile_stop)
qed

lemma holds_emits:
  assumes "holds a p"
  shows "snd (feed c a) =
    (if (c = LF \<or> c = CR) \<and> p \<noteq> [] then Some (cstr (take 127 p)) else None)"
proof -
  from assms have len: "length (buffer a) = 128" and n: "bufferIndex a = length (take 127 p)"
    and tk: "take (bufferIndex a) (buffer a) = take 127 p"
    unfolding holds_def by blast+
  from n have z: "(bufferIndex a > 0) = (p \<noteq> [])" by (cases p) auto
  from n len have "bufferIndex a < length (buffer a)" by simp
  then have "cstr ((buffer a)[bufferIndex a := NUL]) = cstr (take (bufferIndex a) (buffer a))"
    by (rule cstr_update)
  with tk have "cstr ((buffer a)[bufferIndex a := NUL]) = cstr (take 127 p)"
    by simp
  with z show ?thesis by (auto simp add: feed_def Let_def)
qed

lemma cstr_Nil_iff: "(cstr p = []) = (p = [] \<or> hd p = NUL)"
  by (cases p) (simp_all add: cstr_def)

lemma pending_long:
  "pending (CHR ''$'' # replicate 200 CHR ''x'') = replicate 200 CHR ''x''"
proof -
  have "takeWhile (\<lambda>c. \<not> is_boundary c) (replicate 200 CHR ''x'' @ ''$'') =
        replicate 200 CHR ''x'' @ takeWhile (\<lambda>c. \<not> is_boundary c) ''$''"
    by (rule takeWhile_append2) (auto simp add: is_boundary_def)
  then show ?thesis by (simp add: pending_def is_boundary_def)
qed

text \<open>
  Claim C2, amended. After any bytes \<open>bs\<close> fed from the initial state, the next byte
  closes a sentence exactly when it is a line feed or a carriage return and at least one
  byte other than \<open>$\<close>, line feed and carriage return has arrived since the most recent
  \<open>$\<close>, line feed or carriage return (or since the start, when there was none). The
  sentence is the C string in the buffer: those bytes, cut to the first 127 (the buffer
  has 128 bytes and one is kept for the terminator) and cut again in front of the first
  zero byte among them. It is exactly the first 127 of those bytes when none of them is
  a zero byte, and it has length zero exactly when the first of them is a zero byte.
\<close>

theorem feed_emits_pending:
  "snd (feed c (feed_all assembler_init bs)) =
     (if (c = LF \<or> c = CR) \<and> pending bs \<noteq> []
      then Some (cstr (take 127 (pending bs))) else None)
   \<and> (cstr (take 127 (pending bs)) = take 127 (pending bs)) =
       (NUL \<notin> set (take 127 (pending bs)))
   \<and> (snd (feed c (feed_all assembler_init bs)) = Some []) =
       ((c = LF \<or> c = CR) \<and> pending bs \<noteq> [] \<and> hd (pending bs) = NUL)"
proof (intro conjI)
  show e: "snd (feed c (feed_all assembler_init bs)) =
     (if (c = LF \<or> c = CR) \<and> pending bs \<noteq> []
      then Some (cstr (take 127 (pending bs))) else None)"
    using holds_feed_all by (rule holds_emits)
  show "(cstr (take 127 (pending bs)) = take 127 (pending bs)) =
       (NUL \<notin> set (take 127 (pending bs)))"
    unfolding cstr_def takeWhile_eq_all_conv by blast
  have "pending bs \<noteq> [] \<Longrightarrow> hd (take 127 (pending bs)) = hd (pending bs)"
    by (cases "pending bs") simp_all
  then show "(snd (feed c (feed_all assembler_init bs)) = Some []) =
       ((c = LF \<or> c = CR) \<and> pending bs \<noteq> [] \<and> hd (pending bs) = NUL)"
    unfolding e by (auto simp add: cstr_Nil_iff)
qed

text \<open>
  A stream with leading noise and a sentence restarted by a second \<open>$\<close>: the carriage
  return closes the bytes behind the last \<open>$\<close>, and the line feed that follows closes
  nothing. A sentence of 200 bytes: the first 127 are kept. And a sentence with a zero
  byte in it: the string ends in front of that byte.
\<close>

theorem feed_emits_pending_witness:
  "pending ''xy$GPGGA$GPRMC,1'' = ''GPRMC,1''
   \<and> snd (feed CR (feed_all assembler_init ''xy$GPGGA$GPRMC,1'')) = Some ''GPRMC,1''
   \<and> snd (feed LF (feed_all assembler_init (''xy$GPGGA$GPRMC,1'' @ [CR]))) = None
   \<and> snd (feed LF (feed_all assembler_init (CHR ''$'' # replicate 200 CHR ''x''))) =
       Some (replicate 127 CHR ''x'')
   \<and> snd (feed LF (feed_all assembler_init (''$GP'' @ [NUL] @ ''RMC,1''))) = Some ''GP''"
  using feed_emits_pending [of CR "''xy$GPGGA$GPRMC,1''"]
    feed_emits_pending [of LF "''xy$GPGGA$GPRMC,1'' @ [CR]"]
    feed_emits_pending [of LF "CHR ''$'' # replicate 200 CHR ''x''"]
    feed_emits_pending [of LF "''$GP'' @ [NUL] @ ''RMC,1''"]
  unfolding pending_long
  by (simp add: pending_def is_boundary_def cstr_def)

text \<open>
  Two bytes and a line feed from the initial state, with no \<open>$\<close> at all: the sentence
  \<open>ab\<close> is closed. A \<open>$\<close> followed by a second \<open>$\<close> and a line feed: nothing is
  closed. And a \<open>$\<close>, a zero byte and a line feed: a sentence of length zero is closed.
\<close>

theorem feed_without_dollar_counterexample:
  "CHR ''$'' \<notin> set ''ab''
   \<and> snd (feed LF (feed_all assembler_init ''ab'')) = Some ''ab''
   \<and> snd (feed LF (feed_all assembler_init ''$$'')) = None
   \<and> snd (feed LF (feed_all assembler_init [CHR ''$'', NUL])) = Some []"
  by (simp add: feed_def assembler_init_def replicate_numeral cstr_def)

end
